theory Spec2Isabelle
  imports Complex_Main "HOL-Library.Word"
begin

section \<open>Machine types\<close>

text \<open>
  The sources are C++ for an LP64 platform, as their own comments say of \<open>size_t\<close>
  ("on most architectures, it is a 64-bit unsigned integer"): \<open>size_t\<close> is a 64-bit
  word and \<open>unsigned int\<close> (the type of the literals \<open>0u\<close>) a 32-bit word. Both
  wrap around. The fixed-width types of \<open>census.hpp\<close> are words of their width.
\<close>

type_synonym size_t = "64 word"
type_synonym unsigned = "32 word"

type_synonym Age = "8 word"
type_synonym Income = "32 word"
type_synonym Country = "8 word"

datatype Sex = male | female
datatype HousingStatus = renter | owner

text \<open>
  What ends a run without a result: a failed \<open>assert\<close> (the process aborts) and an
  array access past the end of a \<open>std::array\<close> (undefined behaviour, kept as an
  error of its own so that it never passes for a result).
\<close>

datatype error = AssertionFailed | OutOfBounds

section \<open>The standard library's random numbers\<close>

text \<open>
  \<open>census.hpp\<close> draws from \<open>std::default_random_engine\<close> through five distribution
  objects, each built afresh for every draw, so a draw is a function of the engine's state
  alone: it returns a value and the engine's next state. The engine and the distributions
  are the C++ standard library's and not part of the repository; they are the fields of a
  record that every generator takes as a parameter. A field's type is the distribution's
  result type in \<open>census.hpp\<close>.
\<close>

record 'g random_library =
  default_random_engine :: 'g
  sex_distr :: "'g \<Rightarrow> unsigned \<times> 'g"
  country_distr :: "'g \<Rightarrow> Country \<times> 'g"
  age_distr :: "'g \<Rightarrow> Age \<times> 'g"
  hst_distr :: "'g \<Rightarrow> bool \<times> 'g"
  income_distr :: "'g \<Rightarrow> Income \<times> 'g"

section \<open>std::generate and std::for_each\<close>

text \<open>
  \<open>std::generate (first, last, g)\<close> assigns \<open>g()\<close> to every element of the range in
  order. The callable is a state transformer: its state is whatever its calls change (an
  engine it owns or refers to, the state of \<open>std::rand\<close>).
\<close>

fun generate :: "'a list \<Rightarrow> ('g \<Rightarrow> 'a \<times> 'g) \<Rightarrow> 'g \<Rightarrow> 'a list \<times> 'g" where
  "generate [] gen g = ([], g)"
| "generate (x # xs) gen g =
     (case gen g of (y, g') \<Rightarrow>
        (case generate xs gen g' of (ys, g'') \<Rightarrow> (y # ys, g'')))"

text \<open>\<open>std::for_each (first, last, body)\<close> runs \<open>body\<close> on every element in order.\<close>

fun for_each :: "'v list \<Rightarrow> ('v \<Rightarrow> 'st \<Rightarrow> 'st) \<Rightarrow> 'st \<Rightarrow> 'st" where
  "for_each [] body st = st"
| "for_each (v # vs) body st = for_each vs body (body v st)"

section \<open>data-generation.hpp\<close>

text \<open>
  \<open>build_rand_vec (gen, size)\<close> builds \<open>std::vector< T > random_data (size)\<close>, whose
  elements are value-initialised, and overwrites it with \<open>std::generate\<close>. The
  value-initialised element \<open>T{}\<close> is the argument \<open>t0\<close>; the state the calls of
  \<open>gen\<close> leave behind is returned beside the vector.
\<close>

definition build_rand_vec :: "'a \<Rightarrow> ('g \<Rightarrow> 'a \<times> 'g) \<Rightarrow> nat \<Rightarrow> 'g \<Rightarrow> 'a list \<times> 'g" where
  "build_rand_vec t0 gen size' g = generate (replicate size' t0) gen g"

text \<open>
  The result of the \<open>i\<close>-th invocation (counted from 0) of a callable started in state
  \<open>g\<close>: the notion the contract of \<open>build_rand_vec\<close> is stated with.
\<close>

fun invocation :: "('g \<Rightarrow> 'a \<times> 'g) \<Rightarrow> 'g \<Rightarrow> nat \<Rightarrow> 'a" where
  "invocation gen g 0 = fst (gen g)"
| "invocation gen g (Suc i) = invocation gen (snd (gen g)) i"


section \<open>The type float\<close>

text \<open>
  \<open>timing.hpp\<close> returns a \<open>float\<close> and accepts callables that return one. The
  finite values of IEEE binary32: \<open>Binary32 m e\<close> stands for \<open>m * 2 ^ e\<close>, with
  \<open>2 ^ 23 \<le> \<bar>m\<bar> < 2 ^ 24\<close>, or for zero as \<open>Binary32 0 0\<close>. A sum or product is
  the exact result rounded to 24 significant bits, to the nearest value and to the even
  one of two nearest. Overflow, subnormal numbers, infinities and NaN are left out.
\<close>

datatype binary32 = Binary32 (significand: int) (exponent: int)

function bit_length :: "nat \<Rightarrow> nat" where
  "bit_length n = (if n = 0 then 0 else Suc (bit_length (n div 2)))"
  by pat_completeness auto
termination
  by (relation "measure id") auto

declare bit_length.simps [simp del]

text \<open>The binary32 value nearest to \<open>s * 2 ^ e\<close>.\<close>

definition round_to_binary32 :: "int \<Rightarrow> int \<Rightarrow> binary32" where
  "round_to_binary32 s e =
     (let a = nat \<bar>s\<bar>; len = bit_length a in
      if s = 0 then Binary32 0 0
      else if len \<le> 24 then Binary32 (s * 2 ^ (24 - len)) (e - int (24 - len))
      else
        (let shift = len - 24;
             q = a div 2 ^ shift;
             r = a mod 2 ^ shift;
             half = 2 ^ (shift - 1);
             q' = (if half < r \<or> (r = half \<and> odd q) then q + 1 else q)
         in if q' = 2 ^ 24 then Binary32 (sgn s * 2 ^ 23) (e + int shift + 1)
            else Binary32 (sgn s * int q') (e + int shift)))"

instantiation binary32 :: "{zero, plus, times}"
begin

definition zero_binary32 :: binary32 where
  "zero_binary32 = Binary32 0 0"

definition plus_binary32 :: "binary32 \<Rightarrow> binary32 \<Rightarrow> binary32" where
  "plus_binary32 x y =
     (let e = min (exponent x) (exponent y) in
      round_to_binary32
        (significand x * 2 ^ nat (exponent x - e) + significand y * 2 ^ nat (exponent y - e)) e)"

definition times_binary32 :: "binary32 \<Rightarrow> binary32 \<Rightarrow> binary32" where
  "times_binary32 x y =
     round_to_binary32 (significand x * significand y) (exponent x + exponent y)"

instance ..

end

text \<open>\<open>static_cast< float >( k )\<close>, and the number a binary32 value stands for.\<close>

definition float_of_nat :: "nat \<Rightarrow> binary32" where
  "float_of_nat k = round_to_binary32 (int k) 0"

definition value_of :: "binary32 \<Rightarrow> rat" where
  "value_of x =
     (if 0 \<le> exponent x then of_int (significand x) * 2 ^ nat (exponent x)
      else of_int (significand x) / 2 ^ nat (- exponent x))"

section \<open>timing.hpp\<close>

text \<open>
  \<open>benchmark (f, test_instances)\<close> reads \<open>std::chrono::steady_clock\<close> before and
  after the loop. The clock is monotonic: the model takes the first reading
  \<open>start_time\<close> and the ticks \<open>elapsed\<close> until the second one as natural numbers
  (a tick is a nanosecond; \<open>duration_cast< microseconds >\<close> divides by 1000 and
  truncates). The callable \<open>f\<close> maps an input and the state it may change to its output
  and the new state. The loop body is the lambda
  \<open>[&output, f]( auto const& v ){ output = output + f(v); }\<close>.

  The result holds what is printed (\<open>std::cout << output\<close>) and the returned float,
  read as a real number; dividing by the size of an empty batch gives no number
  (\<open>None\<close>).
\<close>

record 'o benchmark_result =
  printed :: 'o
  duration :: "real option"

definition accumulate_output ::
  "('v \<Rightarrow> 's \<Rightarrow> 'o \<times> 's) \<Rightarrow> 'v \<Rightarrow> ('o::{zero,plus}) \<times> 's \<Rightarrow> 'o \<times> 's" where
  "accumulate_output f v st =
     (case st of (output, s) \<Rightarrow> (case f v s of (y, s') \<Rightarrow> (output + y, s')))"

definition benchmark ::
  "('v \<Rightarrow> 's \<Rightarrow> 'o \<times> 's) \<Rightarrow> 'v list \<Rightarrow> nat \<Rightarrow> nat \<Rightarrow> 's
     \<Rightarrow> ('o::{zero,plus}) benchmark_result \<times> 's" where
  "benchmark f test_instances start_time elapsed s =
     (let end_time = start_time + elapsed in
      case for_each test_instances (accumulate_output f) (0, s) of (output, s') \<Rightarrow>
        (\<lparr>printed = output,
          duration =
            (if test_instances = [] then None
             else Some (real_of_int ((int end_time - int start_time) div 1000)
                        / real (length test_instances)))\<rparr>, s'))"

text \<open>
  A callable wrapped so that it also records the inputs it is called on, in call order:
  the means to state that a loop visits every element once, in sequence order.
\<close>

definition recording ::
  "('v \<Rightarrow> 's \<Rightarrow> 'o \<times> 's) \<Rightarrow> 'v \<Rightarrow> 's \<times> 'v list \<Rightarrow> 'o \<times> ('s \<times> 'v list)" where
  "recording f v st =
     (case st of (s, calls) \<Rightarrow> (case f v s of (y, s') \<Rightarrow> (y, (s', calls @ [v]))))"

section \<open>census.hpp\<close>

subsection \<open>Array of structures\<close>

record person =
  age :: Age
  country :: Country
  income :: Income
  hst :: HousingStatus
  sex :: Sex

type_synonym aos_census = "person list"

text \<open>A value-initialised \<open>person\<close>: every member zero, each enum its first value.\<close>

definition person0 :: person where
  "person0 = \<lparr>age = 0, country = 0, income = 0, hst = renter, sex = male\<rparr>"

text \<open>
  \<open>build_person::operator()\<close>: the members of the braced initialiser are evaluated
  in order, each on the engine the functor owns.
\<close>

definition build_person :: "'g random_library \<Rightarrow> 'g \<Rightarrow> person \<times> 'g" where
  "build_person L generator =
     (case age_distr L generator of (a, g1) \<Rightarrow>
      case country_distr L g1 of (c, g2) \<Rightarrow>
      case income_distr L g2 of (i, g3) \<Rightarrow>
      case hst_distr L g3 of (h, g4) \<Rightarrow>
      case sex_distr L g4 of (s, g5) \<Rightarrow>
        (\<lparr>age = a,
          country = c,
          income = i + 10000,
          hst = (if h then owner else renter),
          sex = (if s = 0 then male else female)\<rparr>, g5))"

definition aos_create_random_census :: "'g random_library \<Rightarrow> nat \<Rightarrow> aos_census" where
  "aos_create_random_census L population_size =
     fst (generate (replicate population_size person0) (build_person L)
            (default_random_engine L))"

fun aos_bucketise_loop :: "person list \<Rightarrow> size_t list \<Rightarrow> error + size_t list" where
  "aos_bucketise_loop [] buckets = Inr buckets"
| "aos_bucketise_loop (p # ps) buckets =
     (if unat (person.age p) < length buckets
      then aos_bucketise_loop ps
             (buckets [unat (person.age p) := buckets ! unat (person.age p) + 1])
      else Inl OutOfBounds)"

definition aos_bucketise_by_age :: "nat \<Rightarrow> aos_census \<Rightarrow> error + size_t list" where
  "aos_bucketise_by_age NUM_BUCKETS population_data =
     aos_bucketise_loop population_data (replicate NUM_BUCKETS 0)"

subsection \<open>Structure of arrays\<close>

record census =
  sex :: "Sex list"
  age :: "Age list"
  income :: "Income list"
  country :: "Country list"
  hst :: "HousingStatus list"

text \<open>The five lambdas of \<open>soa::create_random_census\<close>, on the one engine they share.\<close>

definition gen_sex :: "'g random_library \<Rightarrow> 'g \<Rightarrow> Sex \<times> 'g" where
  "gen_sex L generator =
     (case sex_distr L generator of (s, g') \<Rightarrow> (if s = 0 then male else female, g'))"

definition gen_age :: "'g random_library \<Rightarrow> 'g \<Rightarrow> Age \<times> 'g" where
  "gen_age L generator = age_distr L generator"

definition gen_income :: "'g random_library \<Rightarrow> 'g \<Rightarrow> Income \<times> 'g" where
  "gen_income L generator = income_distr L generator"

definition gen_country :: "'g random_library \<Rightarrow> 'g \<Rightarrow> Country \<times> 'g" where
  "gen_country L generator = country_distr L generator"

definition gen_hst :: "'g random_library \<Rightarrow> 'g \<Rightarrow> HousingStatus \<times> 'g" where
  "gen_hst L generator =
     (case hst_distr L generator of (h, g') \<Rightarrow> (if h then owner else renter, g'))"

definition soa_create_random_census :: "'g random_library \<Rightarrow> nat \<Rightarrow> census" where
  "soa_create_random_census L population_size =
     (case generate (replicate population_size male) (gen_sex L) (default_random_engine L)
        of (sex_v, g1) \<Rightarrow>
      case generate (replicate population_size 0) (gen_age L) g1 of (age_v, g2) \<Rightarrow>
      case generate (replicate population_size 0) (gen_income L) g2 of (income_v, g3) \<Rightarrow>
      case generate (replicate population_size 0) (gen_country L) g3 of (country_v, g4) \<Rightarrow>
      case generate (replicate population_size renter) (gen_hst L) g4 of (hst_v, g5) \<Rightarrow>
        \<lparr>sex = sex_v, age = age_v, income = income_v, country = country_v, hst = hst_v\<rparr>)"

fun soa_bucketise_loop :: "Age list \<Rightarrow> size_t list \<Rightarrow> error + size_t list" where
  "soa_bucketise_loop [] buckets = Inr buckets"
| "soa_bucketise_loop (a # as) buckets =
     (if unat a < length buckets
      then soa_bucketise_loop as (buckets [unat a := buckets ! unat a + 1])
      else Inl OutOfBounds)"

definition soa_bucketise_by_age :: "nat \<Rightarrow> census \<Rightarrow> error + size_t list" where
  "soa_bucketise_by_age NUM_BUCKETS population_data =
     soa_bucketise_loop (census.age population_data) (replicate NUM_BUCKETS 0)"

section \<open>median-age.cpp\<close>

text \<open>
  \<open>std::accumulate (buckets.cbegin(), buckets.cend(), 0u)\<close>: the accumulator has the
  type of the initial value \<open>0u\<close>, \<open>unsigned int\<close>. Each step adds in \<open>size_t\<close>
  and stores the sum back into the 32-bit accumulator.
\<close>

definition accumulate :: "size_t list \<Rightarrow> unsigned \<Rightarrow> unsigned" where
  "accumulate buckets init =
     foldl (\<lambda>acc x. (ucast ((ucast acc :: size_t) + x) :: unsigned)) init buckets"

text \<open>\<open>buckets.size()\<close>, a \<open>size_t\<close>.\<close>

definition size_of :: "'a list \<Rightarrow> size_t" where
  "size_of xs = of_nat (length xs)"

text \<open>
  The loop of \<open>find_median_bucket\<close>. Its counter \<open>auto i = 0u\<close> is an
  \<open>unsigned int\<close>, converted to \<open>size_t\<close> for the comparison with the size and on
  return; \<open>cumulative_total\<close> is a \<open>size_t\<close>. A run that never leaves the loop has
  the value \<open>None\<close>.
\<close>

partial_function (option) find_median_bucket_loop ::
  "size_t list \<Rightarrow> size_t \<Rightarrow> unsigned \<Rightarrow> size_t \<Rightarrow> size_t option" where
  "find_median_bucket_loop buckets n i cumulative_total =
     (if (ucast i :: size_t) < size_of buckets
      then (let cumulative_total' = cumulative_total + buckets ! unat i in
            if cumulative_total' > n div 2 then Some (ucast i)
            else find_median_bucket_loop buckets n (i + 1) cumulative_total')
      else Some (size_of buckets))"

text \<open>
  \<open>find_median_bucket\<close> with its assertion enabled (no \<open>NDEBUG\<close>): a failed
  assertion aborts, otherwise the loop runs from \<open>i = 0\<close> with total \<open>0\<close>.
\<close>

definition find_median_bucket :: "size_t list \<Rightarrow> size_t \<Rightarrow> (error + size_t) option" where
  "find_median_bucket buckets n =
     (if (ucast (accumulate buckets 0) :: size_t) = n
      then map_option Inr (find_median_bucket_loop buckets n 0 0)
      else Some (Inl AssertionFailed))"

text \<open>
  The value of \<open>cumulative_total\<close> after the first \<open>k\<close> buckets have been added, in
  \<open>size_t\<close> arithmetic as the loop computes it.
\<close>

definition cumulative_count :: "size_t list \<Rightarrow> nat \<Rightarrow> size_t" where
  "cumulative_count buckets k = sum_list (take k buckets)"

text \<open>
  The constants of \<open>main\<close>: \<open>population_size = 100000000u\<close> and
  \<open>age_bound = 1u << ( 8 * sizeof( Age ) )\<close>, with \<open>sizeof( Age ) = 1\<close>.
\<close>

definition population_size :: unsigned where
  "population_size = 100000000"

definition sizeof_Age :: nat where
  "sizeof_Age = 1"

definition age_bound :: unsigned where
  "age_bound = push_bit (8 * sizeof_Age) 1"

text \<open>
  \<open>main\<close> seeds \<open>std::rand\<close> from \<open>std::time\<close>, which nothing it calls
  reads, and reads the steady clock around the computation of the median; these are what
  it takes from its environment. It prints the calculation time in microseconds and the
  median age, unless the run ends before.
\<close>

record environment =
  time_now :: int
  clock_start :: nat
  clock_elapsed :: nat



section \<open>A library to run the model on\<close>

text \<open>
  An instance of the library record for running the definitions on concrete inputs: the
  engine is a small linear congruential generator started at 1, and each draw takes the
  engine's next output into the distribution's range. It stands for no implementation of
  the standard library.
\<close>

definition lcg16 :: "nat \<Rightarrow> nat" where
  "lcg16 x = (5 * x + 3) mod 16"

definition example_library :: "nat random_library" where
  "example_library =
     \<lparr>default_random_engine = 1,
      sex_distr = (\<lambda>g. (of_nat (lcg16 g mod 2), lcg16 g)),
      country_distr = (\<lambda>g. (of_nat (lcg16 g), lcg16 g)),
      age_distr = (\<lambda>g. (of_nat (7 * lcg16 g), lcg16 g)),
      hst_distr = (\<lambda>g. (lcg16 g < 11, lcg16 g)),
      income_distr = (\<lambda>g. (of_nat (lcg16 g mod 4), lcg16 g))\<rparr>"

section \<open>The median bucket\<close>

subsection \<open>The assertion's sum\<close>

text \<open>
  The assertion compares \<open>n\<close> with the sum of the counts modulo \<open>2 ^ 32\<close>, since
  its accumulator is an \<open>unsigned int\<close>.
\<close>

lemma unat_accumulate:
  "unat (accumulate xs a) = (unat a + sum_list (map unat xs)) mod 2 ^ 32"
proof (induction xs arbitrary: a)
  case Nil
  have "unat a < 2 ^ 32" using unsigned_less [of a, where 'a = nat] by simp
  then show ?case by (simp add: accumulate_def)
next
  case (Cons x xs)
  have step: "unat (ucast ((ucast a :: size_t) + x) :: unsigned) = (unat a + unat x) mod 2 ^ 32"
  proof -
    have "unat (ucast ((ucast a :: size_t) + x) :: unsigned)
            = unat ((ucast a :: size_t) + x) mod 2 ^ 32"
      by (simp add: unsigned_ucast_eq take_bit_eq_mod)
    also have "unat ((ucast a :: size_t) + x) = (unat a + unat x) mod 2 ^ 64"
      by (simp add: unat_word_ariths unsigned_ucast_eq take_bit_eq_mod mod_add_left_eq)
    also have "(unat a + unat x) mod 2 ^ 64 mod 2 ^ 32 = (unat a + unat x) mod (2 ^ 32 :: nat)"
      by (rule mod_mod_cancel) simp
    finally show ?thesis .
  qed
  have "accumulate (x # xs) a = accumulate xs (ucast ((ucast a :: size_t) + x))"
    by (simp add: accumulate_def)
  then have "unat (accumulate (x # xs) a)
               = ((unat a + unat x) mod 2 ^ 32 + sum_list (map unat xs)) mod 2 ^ 32"
    using Cons.IH step by simp
  also have "\<dots> = (unat a + unat x + sum_list (map unat xs)) mod 2 ^ 32"
    by (simp add: mod_add_left_eq)
  finally show ?case by (simp add: add.assoc)
qed

lemma unat_sum_list:
  "unat (sum_list (xs :: size_t list)) = sum_list (map unat xs) mod 2 ^ 64"
proof (induction xs)
  case Nil
  then show ?case by simp
next
  case (Cons x xs)
  have "unat (x + sum_list xs) = (unat x + unat (sum_list xs)) mod 2 ^ 64"
    by (simp add: unat_word_ariths)
  then show ?case using Cons by (simp add: mod_add_right_eq)
qed

lemma assertion_passes_iff:
  "(ucast (accumulate buckets 0) :: size_t) = n \<longleftrightarrow>
     sum_list (map unat buckets) mod 2 ^ 32 = unat n"
proof -
  have "unat (ucast (accumulate buckets 0) :: size_t) = unat (accumulate buckets 0)"
    by (simp add: unsigned_ucast_eq take_bit_nat_eq_self
        order_less_trans [OF unsigned_less [of "accumulate buckets 0", where 'a = nat]])
  then have "unat (ucast (accumulate buckets 0) :: size_t) = sum_list (map unat buckets) mod 2 ^ 32"
    by (simp add: unat_accumulate)
  then show ?thesis by (auto simp: word_unat_eq_iff)
qed

lemma accumulate_replicate_0: "accumulate (replicate k 0) a = a"
  by (induction k) (simp_all add: accumulate_def ucast_up_ucast_id is_up)

lemma accumulate_Cons: "accumulate (x # xs) a = accumulate xs (ucast ((ucast a :: size_t) + x))"
  by (simp add: accumulate_def)

lemma sum_list_map_unat_replicate_0: "sum_list (map unat (replicate k (0 :: size_t))) = 0"
  by (induction k) simp_all

subsection \<open>The loop\<close>

text \<open>
  On a container of fewer than \<open>2 ^ 32\<close> elements the 32-bit counter never wraps: the
  loop started at index \<open>k\<close> with the total of the first \<open>k\<close> buckets ends, at the
  first index from \<open>k\<close> on whose running total exceeds \<open>n div 2\<close>, or at the size.
\<close>

lemma cumulative_count_Suc:
  "k < length buckets \<Longrightarrow>
   cumulative_count buckets (Suc k) = cumulative_count buckets k + buckets ! k"
  by (simp add: cumulative_count_def take_Suc_conv_app_nth)

lemma unat_index: "k < 2 ^ 32 \<Longrightarrow> unat (of_nat k :: unsigned) = k"
  by (simp add: unat_of_nat)

lemma ucast_index: "k < 2 ^ 32 \<Longrightarrow> (ucast (of_nat k :: unsigned) :: size_t) = of_nat k"
  using of_nat_unat [of "of_nat k :: unsigned", where 'a = size_t] by (simp add: unat_index)

lemma index_less_size:
  "length xs < 2 ^ 32 \<Longrightarrow> k \<le> length xs \<Longrightarrow>
   (ucast (of_nat k :: unsigned) :: size_t) < size_of xs \<longleftrightarrow> k < length xs"
proof -
  assume a: "length xs < 2 ^ 32" "k \<le> length xs"
  have "(2::nat) ^ 32 < 2 ^ 64" by simp
  with a have b: "length xs < 2 ^ 64" "k < 2 ^ 64" "k < 2 ^ 32" by linarith+
  show ?thesis
    using b by (simp add: ucast_index size_of_def word_of_nat_less_iff take_bit_nat_eq_self)
qed

lemma find_median_bucket_loop_from:
  assumes len: "length buckets < 2 ^ 32"
  shows "k \<le> length buckets \<Longrightarrow>
    \<exists>b. find_median_bucket_loop buckets n (of_nat k) (cumulative_count buckets k) = Some (of_nat b)
       \<and> k \<le> b \<and> b \<le> length buckets
       \<and> (\<forall>j. k \<le> j \<and> j < b \<longrightarrow> cumulative_count buckets (Suc j) \<le> n div 2)
       \<and> (b < length buckets \<longrightarrow> n div 2 < cumulative_count buckets (Suc b))"
proof (induction "length buckets - k" arbitrary: k)
  case 0
  then have k: "k = length buckets" by simp
  have "\<not> (ucast (of_nat k :: unsigned) :: size_t) < size_of buckets"
    using index_less_size [OF len, of k] k by simp
  then have "find_median_bucket_loop buckets n (of_nat k) (cumulative_count buckets k)
               = Some (of_nat (length buckets))"
    by (subst find_median_bucket_loop.simps) (simp add: size_of_def)
  then show ?case using k by auto
next
  case (Suc d)
  then have k: "k < length buckets" by simp
  then have k32: "k < 2 ^ 32" using len by simp
  have cond: "(ucast (of_nat k :: unsigned) :: size_t) < size_of buckets"
    using index_less_size [OF len, of k] k by simp
  have next_total: "cumulative_count buckets k + buckets ! unat (of_nat k :: unsigned)
                      = cumulative_count buckets (Suc k)"
    using k k32 by (simp add: cumulative_count_Suc unat_index)
  show ?case
  proof (cases "n div 2 < cumulative_count buckets (Suc k)")
    case True
    have "find_median_bucket_loop buckets n (of_nat k) (cumulative_count buckets k)
            = Some (of_nat k)"
      using cond next_total True k32
      by (subst find_median_bucket_loop.simps) (simp add: Let_def ucast_index)
    then show ?thesis using k True by auto
  next
    case False
    have unfold: "find_median_bucket_loop buckets n (of_nat k) (cumulative_count buckets k)
            = find_median_bucket_loop buckets n (of_nat (Suc k)) (cumulative_count buckets (Suc k))"
      using cond next_total False
      by (subst find_median_bucket_loop.simps) (simp add: Let_def add.commute)
    have "d = length buckets - Suc k" using Suc.hyps(2) by simp
    moreover have "Suc k \<le> length buckets" using k by simp
    ultimately obtain b where b:
      "find_median_bucket_loop buckets n (of_nat (Suc k)) (cumulative_count buckets (Suc k))
         = Some (of_nat b)"
      "Suc k \<le> b" "b \<le> length buckets"
      "\<forall>j. Suc k \<le> j \<and> j < b \<longrightarrow> cumulative_count buckets (Suc j) \<le> n div 2"
      "b < length buckets \<longrightarrow> n div 2 < cumulative_count buckets (Suc b)"
      using Suc.hyps(1) [of "Suc k"] by blast
    have "\<forall>j. k \<le> j \<and> j < b \<longrightarrow> cumulative_count buckets (Suc j) \<le> n div 2"
    proof (intro allI impI)
      fix j assume j: "k \<le> j \<and> j < b"
      show "cumulative_count buckets (Suc j) \<le> n div 2"
      proof (cases "j = k")
        case True
        then show ?thesis using False by simp
      next
        case False
        then have "Suc k \<le> j \<and> j < b" using j by simp
        then show ?thesis using b(4) by blast
      qed
    qed
    then show ?thesis using unfold b by auto
  qed
qed

lemma find_median_bucket_loop_start:
  assumes "length buckets < 2 ^ 32"
  shows "\<exists>b. find_median_bucket_loop buckets n 0 0 = Some (of_nat b)
       \<and> b \<le> length buckets
       \<and> (\<forall>j<b. cumulative_count buckets (Suc j) \<le> n div 2)
       \<and> (b < length buckets \<longrightarrow> n div 2 < cumulative_count buckets (Suc b))"
  using find_median_bucket_loop_from [OF assms, of 0 n]
  by (simp add: cumulative_count_def)

lemma unat_size_of: "length xs < 2 ^ 32 \<Longrightarrow> unat (size_of xs) = length xs"
proof -
  assume "length xs < 2 ^ 32"
  moreover have "(2::nat) ^ 32 < 2 ^ 64" by simp
  ultimately have "length xs < 2 ^ 64" by linarith
  then show ?thesis by (simp add: size_of_def unat_of_nat)
qed

lemma cumulative_count_replicate_0: "cumulative_count (replicate m 0) k = 0"
  by (simp add: cumulative_count_def sum_list_replicate)

lemma cumulative_count_Cons_replicate_0: "cumulative_count (x # replicate m 0) (Suc k) = x"
  by (simp add: cumulative_count_def sum_list_replicate)

lemma size_of_Cons_replicate: "size_of (x # replicate 255 y) = 256"
  by (simp add: size_of_def)

subsection \<open>When the assertion passes\<close>

text \<open>
  A passed assertion with \<open>n \<ge> 1\<close> makes the total of all buckets exceed \<open>n div 2\<close>,
  so the loop returns a bucket.
\<close>

lemma total_exceeds_half:
  assumes pass: "(ucast (accumulate buckets 0) :: size_t) = n" and n: "1 \<le> n"
  shows "n div 2 < cumulative_count buckets (length buckets)"
proof -
  let ?S = "sum_list (map unat buckets)"
  have a: "?S mod 2 ^ 32 = unat n" using pass by (simp add: assertion_passes_iff)
  have "unat (sum_list buckets) = ?S mod 2 ^ 64" by (rule unat_sum_list)
  then have "unat (sum_list buckets) mod 2 ^ 32 = ?S mod 2 ^ 32"
    by (simp add: mod_mod_cancel)
  then have "unat n \<le> unat (sum_list buckets)" using a by (metis mod_less_eq_dividend)
  moreover have "0 < unat n" using n by (simp add: word_le_nat_alt)
  ultimately have "unat n div 2 < unat (sum_list buckets)" by linarith
  then show ?thesis
    by (simp add: cumulative_count_def word_less_nat_alt unat_div)
qed

text \<open>
  The median bucket, for every input the assertion lets through: the least index whose
  running total exceeds \<open>n div 2\<close>.
\<close>

lemma find_median_bucket_minimal:
  assumes len: "length buckets < 2 ^ 32"
    and pass: "(ucast (accumulate buckets 0) :: size_t) = n"
    and n: "1 \<le> n"
  shows "\<exists>b. find_median_bucket buckets n = Some (Inr (of_nat b))
       \<and> b < length buckets
       \<and> n div 2 < cumulative_count buckets (Suc b)
       \<and> (\<forall>j<b. cumulative_count buckets (Suc j) \<le> n div 2)
       \<and> cumulative_count buckets b \<le> n div 2"
proof -
  obtain b where b:
    "find_median_bucket_loop buckets n 0 0 = Some (of_nat b)"
    "b \<le> length buckets"
    "\<forall>j<b. cumulative_count buckets (Suc j) \<le> n div 2"
    "b < length buckets \<longrightarrow> n div 2 < cumulative_count buckets (Suc b)"
    using find_median_bucket_loop_start [OF len, of n] by blast
  have total: "n div 2 < cumulative_count buckets (length buckets)"
    using total_exceeds_half [OF pass n] .
  have "b \<noteq> length buckets"
  proof
    assume e: "b = length buckets"
    show False
    proof (cases "length buckets")
      case 0
      then show False using total by (simp add: cumulative_count_def)
    next
      case (Suc m)
      then have "cumulative_count buckets (Suc m) \<le> n div 2" using b(3) e by simp
      then show False using total Suc by simp
    qed
  qed
  then have lt: "b < length buckets" using b(2) by simp
  have below: "cumulative_count buckets b \<le> n div 2"
  proof (cases b)
    case 0
    then show ?thesis by (simp add: cumulative_count_def)
  next
    case (Suc m)
    then show ?thesis using b(3) by simp
  qed
  have "find_median_bucket buckets n = Some (Inr (of_nat b))"
    using pass b(1) by (simp add: find_median_bucket_def)
  then show ?thesis using lt b(3,4) below by blast
qed

text \<open>
  The same in the natural numbers, for a total below \<open>2 ^ 32\<close> that the counts
  really sum to: no sum wraps, and the median bucket is the least index whose cumulative
  count exceeds \<open>n div 2\<close>.
\<close>

lemma sum_list_take_le:
  "sum_list (map unat (take k (buckets :: size_t list))) \<le> sum_list (map unat buckets)"
proof -
  have "sum_list (map unat buckets)
          = sum_list (map unat (take k buckets)) + sum_list (map unat (drop k buckets))"
    by (metis append_take_drop_id map_append sum_list_append)
  then show ?thesis by simp
qed

lemma unat_cumulative_count:
  assumes "sum_list (map unat buckets) < 2 ^ 64"
  shows "unat (cumulative_count buckets k) = sum_list (map unat (take k buckets))"
proof -
  have "sum_list (map unat (take k buckets)) < 2 ^ 64"
    using sum_list_take_le [of k buckets] assms by linarith
  then show ?thesis by (simp add: cumulative_count_def unat_sum_list)
qed

lemma find_median_bucket_true_sum:
  assumes len: "length buckets < 2 ^ 32"
    and sum: "sum_list (map unat buckets) = unat n"
    and n: "1 \<le> n" "n < 2 ^ 32"
  shows "\<exists>b. find_median_bucket buckets n = Some (Inr (of_nat b))
       \<and> b < length buckets
       \<and> unat n div 2 < sum_list (map unat (take (Suc b) buckets))
       \<and> (\<forall>j<b. sum_list (map unat (take (Suc j) buckets)) \<le> unat n div 2)
       \<and> sum_list (map unat (take b buckets)) \<le> unat n div 2"
proof -
  have n32: "unat n < 2 ^ 32" using n(2) by (simp add: word_less_nat_alt)
  then have pass: "(ucast (accumulate buckets 0) :: size_t) = n"
    using sum by (simp add: assertion_passes_iff)
  have "unat n < 2 ^ 64" using unsigned_less [of n, where 'a = nat] by simp
  then have small: "sum_list (map unat buckets) < 2 ^ 64" using sum by simp
  have half: "unat (n div 2) = unat n div 2" by (simp add: unat_div)
  obtain b where b:
    "find_median_bucket buckets n = Some (Inr (of_nat b))" "b < length buckets"
    "n div 2 < cumulative_count buckets (Suc b)"
    "\<forall>j<b. cumulative_count buckets (Suc j) \<le> n div 2"
    "cumulative_count buckets b \<le> n div 2"
    using find_median_bucket_minimal [OF len pass n(1)] by blast
  have "unat n div 2 < sum_list (map unat (take (Suc b) buckets))"
    using b(3) half by (simp add: word_less_nat_alt unat_cumulative_count [OF small])
  moreover have "\<forall>j<b. sum_list (map unat (take (Suc j) buckets)) \<le> unat n div 2"
    using b(4) half by (simp add: word_le_nat_alt unat_cumulative_count [OF small])
  moreover have "sum_list (map unat (take b buckets)) \<le> unat n div 2"
    using b(5) half by (simp add: word_le_nat_alt unat_cumulative_count [OF small])
  ultimately show ?thesis using b(1,2) by blast
qed

text \<open>
  C1, at the input where the code leaves the claim. The histogram has 256 buckets, the
  count \<open>2 ^ 32\<close> in bucket 0 and \<open>n = 2 ^ 32\<close>: the counts sum to \<open>n\<close>,
  \<open>n \<ge> 1\<close>, and bucket 0 is the first whose running total exceeds \<open>n div 2\<close>, so the
  claim's answer is 0. The assertion computes the sum in 32 bits, finds 0, and aborts.
\<close>

theorem find_median_bucket_aborts_on_matching_sum:
  "sum_list (map unat (4294967296 # replicate 255 (0 :: size_t))) = unat (4294967296 :: size_t)
   \<and> (1 :: size_t) \<le> 4294967296
   \<and> (4294967296 :: size_t) div 2 < cumulative_count (4294967296 # replicate 255 0) (Suc 0)
   \<and> find_median_bucket (4294967296 # replicate 255 0) 4294967296 = Some (Inl AssertionFailed)"
  by (simp add: sum_list_map_unat_replicate_0 cumulative_count_Cons_replicate_0
      find_median_bucket_def accumulate_Cons accumulate_replicate_0)

text \<open>
  C3, at the input where the code leaves the claim. The histogram has 256 buckets, the
  count \<open>2 ^ 32 + 1\<close> in bucket 0, and the claimed total is \<open>n = 1\<close>: the counts do
  not sum to \<open>n\<close>, yet the 32-bit sum of the assertion is 1, the assertion passes and
  bucket 0 is returned.
\<close>

theorem find_median_bucket_assertion_passes_on_wrong_sum:
  "sum_list (map unat (4294967297 # replicate 255 (0 :: size_t))) \<noteq> unat (1 :: size_t)
   \<and> find_median_bucket (4294967297 # replicate 255 0) 1 = Some (Inr 0)"
  by (simp add: sum_list_map_unat_replicate_0 find_median_bucket_def accumulate_Cons
      accumulate_replicate_0 find_median_bucket_loop.simps [of _ _ 0] size_of_Cons_replicate)

subsection \<open>The sentinel\<close>

text \<open>
  C4, as the code has it. For a histogram of fewer than \<open>2 ^ 32\<close> buckets and a total
  \<open>n\<close> such that no running total exceeds \<open>n div 2\<close>: if the assertion passes,
  \<open>find_median_bucket\<close> returns \<open>buckets.size()\<close>, which is one past the last valid
  index and so equal to none; if the assertion fails, it aborts.
\<close>

theorem find_median_bucket_sentinel:
  assumes len: "length buckets < 2 ^ 32"
    and none: "\<forall>k<length buckets. cumulative_count buckets (Suc k) \<le> n div 2"
  shows "find_median_bucket buckets n =
           (if (ucast (accumulate buckets 0) :: size_t) = n
            then Some (Inr (size_of buckets)) else Some (Inl AssertionFailed))
         \<and> unat (size_of buckets) = length buckets"
proof -
  obtain b where b:
    "find_median_bucket_loop buckets n 0 0 = Some (of_nat b)"
    "b \<le> length buckets"
    "b < length buckets \<longrightarrow> n div 2 < cumulative_count buckets (Suc b)"
    using find_median_bucket_loop_start [OF len, of n] by blast
  have "b = length buckets"
  proof (rule ccontr)
    assume "b \<noteq> length buckets"
    then have lt: "b < length buckets" using b(2) by simp
    then have "n div 2 < cumulative_count buckets (Suc b)" using b(3) by simp
    moreover have "cumulative_count buckets (Suc b) \<le> n div 2" using none lt by simp
    ultimately show False by simp
  qed
  then have "find_median_bucket_loop buckets n 0 0 = Some (size_of buckets)"
    using b(1) by (simp add: size_of_def)
  then show ?thesis by (simp add: find_median_bucket_def unat_size_of [OF len])
qed

text \<open>
  The all-zero histogram of 256 buckets with \<open>n = 0\<close>: the assertion passes and the
  sentinel 256 is returned.
\<close>

theorem find_median_bucket_sentinel_witness:
  "length (replicate 256 (0 :: size_t)) < 2 ^ 32
   \<and> find_median_bucket (replicate 256 0) 0 = Some (Inr 256)"
  using find_median_bucket_sentinel [of "replicate 256 0" 0]
  by (simp add: cumulative_count_replicate_0 accumulate_replicate_0 size_of_def)

text \<open>
  C4 as stated fails where the sum differs from \<open>n\<close>: with one individual in bucket 0
  and \<open>n = 4\<close> every running total is 1, so none exceeds
  \<open>4 div 2\<close>, and the function aborts at the assertion instead of returning 256.
\<close>

theorem find_median_bucket_sentinel_counterexample:
  "(\<forall>k. cumulative_count (1 # replicate 255 0) (Suc k) \<le> (4 :: size_t) div 2)
   \<and> find_median_bucket (1 # replicate 255 0) 4 = Some (Inl AssertionFailed)
   \<and> find_median_bucket (1 # replicate 255 0) 4
        \<noteq> Some (Inr (size_of (1 # replicate 255 (0 :: size_t))))"
  by (simp add: cumulative_count_def sum_list_replicate find_median_bucket_def accumulate_Cons
      accumulate_replicate_0)

subsection \<open>The reach of the sentinel and of the counter\<close>

text \<open>
  With the assertion passed, the sentinel is returned for \<open>n = 0\<close> only. On
  \<open>2 ^ 32\<close> empty buckets the 32-bit counter wraps before it reaches the size, and the
  loop never ends.
\<close>

lemma sentinel_only_for_zero:
  assumes len: "length buckets < 2 ^ 32"
    and r: "find_median_bucket buckets n = Some (Inr (size_of buckets))"
  shows "n = 0"
proof (rule ccontr)
  assume "n \<noteq> 0"
  then have n: "1 \<le> n" by (simp add: word_le_nat_alt unat_gt_0 Suc_le_eq)
  have pass: "(ucast (accumulate buckets 0) :: size_t) = n"
    using r by (auto simp: find_median_bucket_def split: if_splits)
  obtain b where b: "find_median_bucket buckets n = Some (Inr (of_nat b))" "b < length buckets"
    using find_median_bucket_minimal [OF len pass n] by blast
  have "(2::nat) ^ 32 < 2 ^ 64" by simp
  then have "b < 2 ^ 64" "length buckets < 2 ^ 64" using b(2) len by linarith+
  then have "(of_nat b :: size_t) \<noteq> of_nat (length buckets)"
    using b(2) by (simp add: word_of_nat_eq_iff take_bit_nat_eq_self)
  then show False using b(1) r by (simp add: size_of_def)
qed

lemma loop_never_returns:
  assumes "find_median_bucket_loop buckets n i c = Some y"
  shows "\<not> (2 ^ 32 \<le> length buckets \<and> length buckets < 2 ^ 64
            \<and> (\<forall>x \<in> set buckets. x = 0) \<and> c = 0)"
proof (rule find_median_bucket_loop.raw_induct
    [where P = "\<lambda>buckets n i c y. \<not> (2 ^ 32 \<le> length buckets \<and> length buckets < 2 ^ 64
            \<and> (\<forall>x \<in> set buckets. x = 0) \<and> c = 0)", OF _ assms])
  fix f :: "size_t list \<Rightarrow> size_t \<Rightarrow> unsigned \<Rightarrow> size_t \<Rightarrow> size_t option"
  fix buckets n i c y
  assume IH: "\<And>buckets n i c y. f buckets n i c = Some y \<Longrightarrow>
          \<not> (2 ^ 32 \<le> length buckets \<and> length buckets < 2 ^ 64
            \<and> (\<forall>x \<in> set buckets. x = 0) \<and> c = 0)"
    and body: "(if (ucast i :: size_t) < size_of buckets
      then let cumulative_total' = c + buckets ! unat i
           in if n div 2 < cumulative_total' then Some (ucast i)
              else f buckets n (i + 1) cumulative_total'
      else Some (size_of buckets)) = Some y"
  show "\<not> (2 ^ 32 \<le> length buckets \<and> length buckets < 2 ^ 64
            \<and> (\<forall>x \<in> set buckets. x = 0) \<and> c = 0)"
  proof
    assume a: "2 ^ 32 \<le> length buckets \<and> length buckets < 2 ^ 64
            \<and> (\<forall>x \<in> set buckets. x = 0) \<and> c = 0"
    have i: "unat i < 2 ^ 32" using unsigned_less [of i, where 'a = nat] by simp
    then have il: "unat i < length buckets" using a by linarith
    have "unat (ucast i :: size_t) = unat i"
      using i by (simp add: unsigned_ucast_eq take_bit_nat_eq_self)
    moreover have "unat (size_of buckets) = length buckets"
      using a by (simp add: size_of_def unat_of_nat)
    ultimately have cond: "(ucast i :: size_t) < size_of buckets"
      using il by (simp add: word_less_nat_alt)
    have z: "buckets ! unat i = 0" using a il by simp
    have "f buckets n (i + 1) 0 = Some y"
      using body cond z a by (simp add: Let_def)
    then show False using IH [of buckets n "i + 1" 0 y] a by simp
  qed
qed

lemma find_median_bucket_diverges:
  "find_median_bucket (replicate (2 ^ 32) 0) 0 = None"
proof -
  have "find_median_bucket_loop (replicate (2 ^ 32) 0) 0 0 0 = None"
  proof (cases "find_median_bucket_loop (replicate (2 ^ 32) 0) 0 0 0")
    case None
    then show ?thesis .
  next
    case (Some y)
    then show ?thesis using loop_never_returns [OF Some] by simp
  qed
  then show ?thesis by (simp add: find_median_bucket_def accumulate_replicate_0)
qed

section \<open>The generated sequences\<close>

subsection \<open>std::generate\<close>

lemma generate_Cons_fst:
  "fst (generate (x # xs) gen g) = fst (gen g) # fst (generate xs gen (snd (gen g)))"
  by (cases "gen g"; cases "generate xs gen (snd (gen g))") simp


lemma generate_length: "length (fst (generate xs gen g)) = length xs"
  by (induction xs arbitrary: g) (simp_all add: generate_Cons_fst del: generate.simps(2))

lemma generate_length_eq: "generate xs gen g = (ys, g') \<Longrightarrow> length ys = length xs"
  using generate_length [of xs gen g] by simp

lemma generate_nth:
  "i < length xs \<Longrightarrow> fst (generate xs gen g) ! i = invocation gen g i"
proof (induction xs arbitrary: g i)
  case Nil
  then show ?case by simp
next
  case (Cons x xs)
  show ?case
  proof (cases i)
    case 0
    then show ?thesis by (simp add: generate_Cons_fst del: generate.simps(2))
  next
    case (Suc j)
    then have "j < length xs" using Cons.prems by simp
    then have "fst (generate xs gen (snd (gen g))) ! j = invocation gen (snd (gen g)) j"
      by (rule Cons.IH)
    then show ?thesis using Suc by (simp add: generate_Cons_fst del: generate.simps(2))
  qed
qed

lemma generate_constant:
  "(\<And>s. fst (gen s) = c) \<Longrightarrow> fst (generate xs gen g) = replicate (length xs) c"
proof (induction xs arbitrary: g)
  case Nil
  then show ?case by simp
next
  case (Cons x xs)
  have "fst (gen g) = c" by (rule Cons.prems)
  moreover have "fst (generate xs gen (snd (gen g))) = replicate (length xs) c"
    using Cons.IH Cons.prems by blast
  ultimately show ?case by (simp add: generate_Cons_fst del: generate.simps(2))
qed

lemma generate_set:
  "y \<in> set (fst (generate xs gen g)) \<Longrightarrow> \<exists>g'. y = fst (gen g')"
proof (induction xs arbitrary: g)
  case Nil
  then show ?case by simp
next
  case (Cons x xs)
  then have "y = fst (gen g) \<or> y \<in> set (fst (generate xs gen (snd (gen g))))"
    by (simp add: generate_Cons_fst del: generate.simps(2))
  then show ?case using Cons.IH by blast
qed

text \<open>
  C8. \<open>build_rand_vec\<close> returns exactly \<open>size\<close> elements, element \<open>i\<close> being
  the result of the \<open>i\<close>-th invocation of \<open>gen\<close>; for size 0 the result is empty
  whatever \<open>gen\<close> is; a \<open>gen\<close> that always returns \<open>c\<close> gives \<open>size\<close>
  copies of \<open>c\<close>.
\<close>

theorem build_rand_vec_contract:
  "length (fst (build_rand_vec t0 gen size' g)) = size'
   \<and> (\<forall>i. i < size' \<longrightarrow> fst (build_rand_vec t0 gen size' g) ! i = invocation gen g i)
   \<and> fst (build_rand_vec t0 gen 0 g) = []
   \<and> ((\<forall>s. fst (gen s) = c) \<longrightarrow> fst (build_rand_vec t0 gen size' g) = replicate size' c)"
  using generate_constant [of gen c "replicate size' t0" g]
  by (simp add: build_rand_vec_def generate_length generate_nth)

text \<open>
  A generator that squares a counter started at 5, and one that always returns 7, each
  asked for three elements.
\<close>

theorem build_rand_vec_contract_witness:
  "fst (build_rand_vec (0::nat) (\<lambda>s. (s * s, Suc s)) 3 5) = [25, 36, 49]
   \<and> [25, 36, 49] ! 2 = invocation (\<lambda>s. (s * s, Suc s)) (5::nat) 2
   \<and> fst (build_rand_vec (0::nat) (\<lambda>s. (7, Suc s)) 3 (5::nat)) = [7, 7, 7]"
  using build_rand_vec_contract [of "0::nat" "\<lambda>s. (s * s, Suc s)" 3 "5::nat" 0]
    build_rand_vec_contract [of "0::nat" "\<lambda>s. (7, Suc s)" 3 "5::nat" 7]
  by (simp add: build_rand_vec_def numeral_3_eq_3 numeral_2_eq_2)

subsection \<open>The census generators\<close>

lemma aos_length: "length (aos_create_random_census L n) = n"
  by (simp add: aos_create_random_census_def generate_length)

lemma soa_lengths:
  "length (census.sex (soa_create_random_census L n)) = n
   \<and> length (census.age (soa_create_random_census L n)) = n
   \<and> length (census.income (soa_create_random_census L n)) = n
   \<and> length (census.country (soa_create_random_census L n)) = n
   \<and> length (census.hst (soa_create_random_census L n)) = n"
  by (auto simp: soa_create_random_census_def split: prod.splits dest: generate_length_eq)

text \<open>
  C5. For every population size \<open>n\<close>, zero included, the AoS generator returns
  \<open>n\<close> records and the SoA generator five vectors of length \<open>n\<close> each; for
  \<open>n = 0\<close> the outputs are empty.
\<close>

theorem create_random_census_lengths:
  "length (aos_create_random_census L n) = n
   \<and> length (census.sex (soa_create_random_census L n)) = n
   \<and> length (census.age (soa_create_random_census L n)) = n
   \<and> length (census.income (soa_create_random_census L n)) = n
   \<and> length (census.country (soa_create_random_census L n)) = n
   \<and> length (census.hst (soa_create_random_census L n)) = n
   \<and> aos_create_random_census L 0 = []
   \<and> soa_create_random_census L 0 = \<lparr>sex = [], age = [], income = [], country = [], hst = []\<rparr>"
  using soa_lengths [of L n]
  by (simp add: aos_length) (simp add: aos_create_random_census_def soa_create_random_census_def)

text \<open>The example library, evaluated.\<close>

lemma example_library_draws:
  "default_random_engine example_library = 1"
  "sex_distr example_library g = (of_nat (lcg16 g mod 2), lcg16 g)"
  "country_distr example_library g = (of_nat (lcg16 g), lcg16 g)"
  "age_distr example_library g = (of_nat (7 * lcg16 g), lcg16 g)"
  "hst_distr example_library g = (lcg16 g < 11, lcg16 g)"
  "income_distr example_library g = (of_nat (lcg16 g mod 4), lcg16 g)"
  by (simp_all add: example_library_def)

lemma lcg16_values:
  "lcg16 (Suc 0) = 8" "lcg16 0 = 3" "lcg16 2 = 13" "lcg16 3 = 2" "lcg16 4 = 7" "lcg16 5 = 12" "lcg16 6 = 1" "lcg16 7 = 6" "lcg16 8 = 11" "lcg16 9 = 0" "lcg16 10 = 5" "lcg16 11 = 10" "lcg16 12 = 15" "lcg16 13 = 4" "lcg16 14 = 9" "lcg16 15 = 14"
  by (simp_all add: lcg16_def)

lemma replicate_3: "replicate 3 x = [x, x, x]"
  by (simp add: numeral_3_eq_3)

lemma aos_example:
  "map person.income (aos_create_random_census example_library 3) = [10002, 10001, 10000]"
  by (simp add: aos_create_random_census_def build_person_def
      example_library_draws lcg16_values replicate_3)

lemma soa_example:
  "census.income (soa_create_random_census example_library 3) = [2, 1, 0]"
  by (simp add: soa_create_random_census_def
      gen_sex_def gen_age_def gen_income_def gen_country_def gen_hst_def
      example_library_draws lcg16_values replicate_3)

lemma soa_example_age:
  "census.age (soa_create_random_census example_library 3) = [35, 84, 105]"
  by (simp add: soa_create_random_census_def
      gen_sex_def gen_age_def gen_income_def gen_country_def gen_hst_def
      example_library_draws lcg16_values replicate_3)

text \<open>The income of a built person is the draw made in third place, plus 10000.\<close>

lemma build_person_income:
  "\<exists>g'. person.income (fst (build_person L g)) = fst (income_distr L g') + 10000"
proof -
  obtain a g1 where 1: "age_distr L g = (a, g1)" by (cases "age_distr L g")
  obtain c g2 where 2: "country_distr L g1 = (c, g2)" by (cases "country_distr L g1")
  obtain i g3 where 3: "income_distr L g2 = (i, g3)" by (cases "income_distr L g2")
  obtain h g4 where 4: "hst_distr L g3 = (h, g4)" by (cases "hst_distr L g3")
  obtain s g5 where 5: "sex_distr L g4 = (s, g5)" by (cases "sex_distr L g4")
  have "person.income (fst (build_person L g)) = fst (income_distr L g2) + 10000"
    by (simp add: build_person_def 1 2 3 4 5)
  then show ?thesis by blast
qed

lemma unat_offset:
  "unat (d :: Income) + 10000 < 2 ^ 32 \<Longrightarrow> unat (d + 10000) = unat d + 10000"
  using unat_add_lem [of d 10000] by simp

text \<open>The draws of the example library, plus 10000, fit \<open>Income\<close>.\<close>

lemma example_income_draws_fit:
  "unat (fst (income_distr example_library g)) + 10000 < 2 ^ 32"
proof -
  have "lcg16 g mod 4 < 4" by simp
  then have "unat (of_nat (lcg16 g mod 4) :: Income) < 4"
    by (simp add: unat_of_nat)
  then show ?thesis by (simp add: example_library_draws)
qed

text \<open>
  C6. The geometric distribution is the standard library's; for a library whose draws
  plus 10000 fit the 32 bits of \<open>Income\<close>, every AoS income is a geometric draw plus
  10000 and so at least 10000, whereas every SoA income is the draw itself, with no
  offset.
\<close>

theorem census_income_offset:
  assumes fit: "\<forall>g. unat (fst (income_distr L g)) + 10000 < 2 ^ 32"
  shows "(\<forall>p \<in> set (aos_create_random_census L n).
      \<exists>g. person.income p = fst (income_distr L g) + 10000
         \<and> unat (person.income p) = unat (fst (income_distr L g)) + 10000
         \<and> 10000 \<le> unat (person.income p))
   \<and> (\<forall>x \<in> set (census.income (soa_create_random_census L n)).
        \<exists>g. x = fst (income_distr L g))
   \<and> fst (gen_income L g0) = fst (income_distr L g0)"
proof (intro conjI ballI)
  fix p assume "p \<in> set (aos_create_random_census L n)"
  then obtain g where "p = fst (build_person L g)"
    using generate_set [of p _ "build_person L"] by (auto simp: aos_create_random_census_def)
  then obtain g' where g': "person.income p = fst (income_distr L g') + 10000"
    using build_person_income [of L g] by auto
  have "unat (fst (income_distr L g')) + 10000 < 2 ^ 32" using fit by blast
  then have "unat (person.income p) = unat (fst (income_distr L g')) + 10000"
    using g' by (simp add: unat_offset)
  then show "\<exists>g. person.income p = fst (income_distr L g) + 10000
         \<and> unat (person.income p) = unat (fst (income_distr L g)) + 10000
         \<and> 10000 \<le> unat (person.income p)"
    using g' by (intro exI [of _ g']) simp
next
  fix x assume "x \<in> set (census.income (soa_create_random_census L n))"
  then obtain g1 where "x \<in> set (fst (generate (replicate n 0) (gen_income L) g1))"
    by (auto simp: soa_create_random_census_def split: prod.splits) (metis fst_conv)
  then show "\<exists>g. x = fst (income_distr L g)"
    using generate_set [of x _ "gen_income L"] by (simp add: gen_income_def)
next
  show "fst (gen_income L g0) = fst (income_distr L g0)" by (simp add: gen_income_def)
qed

text \<open>
  Three individuals from the example library, whose draws fit: the AoS incomes are the
  draws 2, 1, 0 plus 10000; the SoA incomes are the draws 2, 1, 0, the last of them an
  income of 0.
\<close>

theorem census_income_offset_witness:
  "(\<forall>g. unat (fst (income_distr example_library g)) + 10000 < 2 ^ 32)
   \<and> map person.income (aos_create_random_census example_library 3) = [10002, 10001, 10000]
   \<and> census.income (soa_create_random_census example_library 3) = [2, 1, 0]"
  using census_income_offset [of example_library 3] example_income_draws_fit aos_example soa_example
  by blast

section \<open>The age histogram\<close>

lemma unat_Age_less: "unat (a :: Age) < 256"
  using unsigned_less [of a, where 'a = nat] by simp

lemma unat_age_bound: "unat age_bound = 256"
  by (simp add: age_bound_def sizeof_Age_def)

lemma unat_increment:
  "unat (c :: size_t) + 1 < 2 ^ 64 \<Longrightarrow> unat (c + 1) = unat c + 1"
  using unat_add_lem [of c 1] by simp

lemma sum_list_increment:
  fixes buckets :: "size_t list"
  assumes i: "i < length buckets"
    and room: "sum_list (map unat buckets) + 1 < 2 ^ 64"
  shows "sum_list (map unat (buckets [i := buckets ! i + 1])) = sum_list (map unat buckets) + 1"
proof -
  have "unat (buckets ! i) \<le> sum_list (map unat buckets)"
    using i elem_le_sum_list [of i "map unat buckets"] by simp
  then have "unat (buckets ! i) + 1 < 2 ^ 64" using room by linarith
  then have "unat (buckets ! i + 1) = unat (buckets ! i) + 1" by (rule unat_increment)
  moreover have "map unat (buckets [i := buckets ! i + 1])
                   = (map unat buckets) [i := unat (buckets ! i + 1)]"
    by (simp add: map_update)
  ultimately show ?thesis using i by (simp add: sum_list_update)
qed

lemma soa_bucketise_loop_sum:
  "(\<forall>a \<in> set ages. unat a < length buckets) \<Longrightarrow>
   sum_list (map unat buckets) + length ages < 2 ^ 64 \<Longrightarrow>
   \<exists>bs. soa_bucketise_loop ages buckets = Inr bs \<and> length bs = length buckets
       \<and> sum_list (map unat bs) = sum_list (map unat buckets) + length ages"
proof (induction ages arbitrary: buckets)
  case Nil
  then show ?case by simp
next
  case (Cons a ages)
  let ?b = "buckets [unat a := buckets ! unat a + 1]"
  have a: "unat a < length buckets" using Cons.prems(1) by simp
  have room: "sum_list (map unat buckets) + 1 < 2 ^ 64" using Cons.prems(2) by simp
  have s: "sum_list (map unat ?b) = sum_list (map unat buckets) + 1"
    using sum_list_increment [OF a room] .
  have "\<forall>x \<in> set ages. unat x < length ?b" using Cons.prems(1) by simp
  moreover have "sum_list (map unat ?b) + length ages < 2 ^ 64"
    using s Cons.prems(2) by simp
  ultimately obtain bs where
    "soa_bucketise_loop ages ?b = Inr bs" "length bs = length ?b"
    "sum_list (map unat bs) = sum_list (map unat ?b) + length ages"
    using Cons.IH [of ?b] by blast
  then show ?case using a s by simp
qed

lemma aos_bucketise_loop_soa:
  "aos_bucketise_loop ps buckets = soa_bucketise_loop (map person.age ps) buckets"
  by (induction ps arbitrary: buckets) simp_all

lemma soa_bucketise_loop_in_bounds:
  "(\<forall>a \<in> set ages. unat a < length buckets) \<Longrightarrow>
   \<exists>bs. soa_bucketise_loop ages buckets = Inr bs \<and> length bs = length buckets"
proof (induction ages arbitrary: buckets)
  case Nil
  then show ?case by simp
next
  case (Cons a ages)
  let ?b = "buckets [unat a := buckets ! unat a + 1]"
  have "\<forall>x \<in> set ages. unat x < length ?b" using Cons.prems by simp
  then obtain bs where "soa_bucketise_loop ages ?b = Inr bs" "length bs = length ?b"
    using Cons.IH [of ?b] by blast
  then show ?case using Cons.prems by simp
qed

lemma soa_bucketise_by_age_256:
  "\<exists>bs. soa_bucketise_by_age 256 c = Inr bs \<and> length bs = 256"
  using soa_bucketise_loop_in_bounds [of "census.age c" "replicate 256 0"]
  by (simp add: soa_bucketise_by_age_def unat_Age_less)

lemma aos_bucketise_by_age_256:
  "\<exists>bs. aos_bucketise_by_age 256 P = Inr bs \<and> length bs = 256"
  using soa_bucketise_loop_in_bounds [of "map person.age P" "replicate 256 0"]
  by (simp add: aos_bucketise_by_age_def aos_bucketise_loop_soa unat_Age_less)

lemma soa_bucketise_by_age_sum:
  assumes "length (census.age c) < 2 ^ 64"
  shows "\<exists>bs. soa_bucketise_by_age 256 c = Inr bs \<and> length bs = 256
       \<and> sum_list (map unat bs) = length (census.age c)"
  using soa_bucketise_loop_sum [of "census.age c" "replicate 256 0"] assms
  by (simp add: soa_bucketise_by_age_def unat_Age_less sum_list_replicate)

lemma aos_bucketise_by_age_sum:
  assumes "length P < 2 ^ 64"
  shows "\<exists>bs. aos_bucketise_by_age 256 P = Inr bs \<and> length bs = 256
       \<and> sum_list (map unat bs) = length P"
  using soa_bucketise_loop_sum [of "map person.age P" "replicate 256 0"] assms
  by (simp add: aos_bucketise_by_age_def aos_bucketise_loop_soa unat_Age_less
      sum_list_replicate)

text \<open>With fewer buckets than ages the access can leave the array.\<close>

lemma bucketise_out_of_bounds_reachable:
  "soa_bucketise_by_age 100 \<lparr>sex = [male], age = [120], income = [0], country = [0], hst = [renter]\<rparr>
     = Inl OutOfBounds"
  by (simp add: soa_bucketise_by_age_def)

text \<open>
  C2. For a population of size \<open>n\<close> in either layout, \<open>bucketise_by_age\<close> with
  256 buckets returns a histogram of 256 counts whose sum is \<open>n\<close>. The size of a
  vector fits a \<open>size_t\<close>, which the lists of the model are told to.
\<close>

theorem bucketise_by_age_sums_to_population:
  assumes "length (population_data :: aos_census) < 2 ^ 64"
    and "length (census.age soa_data) < 2 ^ 64"
  shows "(\<exists>buckets. aos_bucketise_by_age 256 population_data = Inr buckets
            \<and> length buckets = 256
            \<and> sum_list (map unat buckets) = length population_data)
       \<and> (\<exists>buckets. soa_bucketise_by_age 256 soa_data = Inr buckets
            \<and> length buckets = 256
            \<and> sum_list (map unat buckets) = length (census.age soa_data))"
  using aos_bucketise_by_age_sum [OF assms(1)] soa_bucketise_by_age_sum [OF assms(2)]
  by simp

text \<open>Three individuals from the example library, in both layouts.\<close>

theorem bucketise_by_age_sums_to_population_witness:
  "(\<exists>buckets. aos_bucketise_by_age 256 (aos_create_random_census example_library 3) = Inr buckets
            \<and> length buckets = 256 \<and> sum_list (map unat buckets) = 3)
   \<and> (\<exists>buckets. soa_bucketise_by_age 256 (soa_create_random_census example_library 3) = Inr buckets
            \<and> length buckets = 256 \<and> sum_list (map unat buckets) = 3)"
  using bucketise_by_age_sums_to_population [of "aos_create_random_census example_library 3"
               "soa_create_random_census example_library 3"]
    soa_lengths [of example_library 3]
  by (simp add: aos_length)

text \<open>
  C10. \<open>age_bound\<close> is 256. Every age the generators draw (the SoA lambda's and the
  one in a built person) is a value of \<open>Age\<close> and so below \<open>age_bound\<close>; with
  that many buckets \<open>bucketise_by_age\<close> returns a histogram for every census of
  either layout, and never leaves the array.
\<close>

theorem age_within_histogram:
  "unat age_bound = 256
   \<and> unat (fst (gen_age L g)) < unat age_bound
   \<and> unat (person.age (fst (build_person L g))) < unat age_bound
   \<and> (\<exists>buckets. soa_bucketise_by_age (unat age_bound) soa_data = Inr buckets)
   \<and> (\<exists>buckets. aos_bucketise_by_age (unat age_bound) aos_data = Inr buckets)
   \<and> soa_bucketise_by_age (unat age_bound) soa_data \<noteq> Inl OutOfBounds
   \<and> aos_bucketise_by_age (unat age_bound) aos_data \<noteq> Inl OutOfBounds"
  using soa_bucketise_by_age_256 [of soa_data] aos_bucketise_by_age_256 [of aos_data]
  by (auto simp: unat_age_bound unat_Age_less)

section \<open>The benchmark harness\<close>

lemma for_each_append:
  "for_each (xs @ ys) body st = for_each ys body (for_each xs body st)"
  by (induction xs arbitrary: st) simp_all

lemma for_each_recording:
  "for_each xs (accumulate_output (recording f)) (out, (s, calls))
     = (case for_each xs (accumulate_output f) (out, s) of
          (out', s') \<Rightarrow> (out', (s', calls @ xs)))"
proof (induction xs arbitrary: out s calls)
  case Nil
  then show ?case by simp
next
  case (Cons x xs)
  obtain y s1 where f: "f x s = (y, s1)" by (cases "f x s")
  have "accumulate_output (recording f) x (out, (s, calls)) = (out + y, (s1, calls @ [x]))"
    by (simp add: accumulate_output_def recording_def f)
  moreover have "accumulate_output f x (out, s) = (out + y, s1)"
    by (simp add: accumulate_output_def f)
  ultimately show ?case using Cons.IH [of "out + y" s1 "calls @ [x]"] by simp
qed

lemma for_each_constant:
  fixes c :: "'o::semiring_1"
  assumes "\<And>v s. fst (f v s) = c"
  shows "fst (for_each xs (accumulate_output f) (out, s)) = out + of_nat (length xs) * c"
proof (induction xs arbitrary: out s)
  case Nil
  then show ?case by simp
next
  case (Cons x xs)
  obtain y s1 where f: "f x s = (y, s1)" by (cases "f x s")
  then have y: "y = c" using assms [of x s] by simp
  have "accumulate_output f x (out, s) = (out + c, s1)"
    by (simp add: accumulate_output_def f y)
  then show ?case using Cons.IH [of "out + c" s1]
    by (simp add: algebra_simps)
qed

lemma benchmark_printed:
  "printed (fst (benchmark f xs t e s)) = fst (for_each xs (accumulate_output f) (0, s))"
  by (simp add: benchmark_def Let_def split: prod.splits)

lemma benchmark_state:
  "snd (benchmark f xs t e s) = snd (for_each xs (accumulate_output f) (0, s))"
  by (simp add: benchmark_def Let_def split: prod.splits)

lemma benchmark_duration:
  "duration (fst (benchmark f xs t e s)) =
     (if xs = [] then None else Some (real_of_int (int e div 1000) / real (length xs)))"
  by (simp add: benchmark_def Let_def split: prod.splits)

lemma benchmark_snoc:
  "printed (fst (benchmark f (xs @ [x]) t e s))
     = printed (fst (benchmark f xs t e s)) + fst (f x (snd (benchmark f xs t e s)))"
proof -
  obtain out s1 where r: "for_each xs (accumulate_output f) (0, s) = (out, s1)"
    by (cases "for_each xs (accumulate_output f) (0, s)")
  obtain y s2 where f: "f x s1 = (y, s2)" by (cases "f x s1")
  show ?thesis
    by (simp add: benchmark_printed benchmark_state for_each_append r accumulate_output_def f)
qed

lemma for_each_constant_iterate:
  fixes c :: "'o::{zero,plus}"
  assumes "\<And>v s. fst (f v s) = c"
  shows "fst (for_each xs (accumulate_output f) (out, s))
           = ((\<lambda>output. output + c) ^^ length xs) out"
proof (induction xs arbitrary: out s)
  case Nil
  then show ?case by simp
next
  case (Cons x xs)
  obtain y s1 where f: "f x s = (y, s1)" by (cases "f x s")
  then have y: "y = c" using assms [of x s] by simp
  have "accumulate_output f x (out, s) = (out + c, s1)"
    by (simp add: accumulate_output_def f y)
  moreover have "((\<lambda>output. output + c) ^^ length xs) (out + c)
                   = ((\<lambda>output. output + c) ^^ length xs) out + c"
    using funpow_swap1 [of "\<lambda>output. output + c" "length xs" out] by simp
  ultimately show ?case using Cons.IH [of "out + c" s1] by simp
qed

text \<open>Sums and a product of binary32 values: ten times 0.1f, added and multiplied.\<close>

lemma bit_length_numeral:
  "bit_length 0 = 0"
  "bit_length (Suc 0) = 1"
  "bit_length (numeral (Num.Bit0 k)) = Suc (bit_length (numeral k))"
  "bit_length (numeral (Num.Bit1 k)) = Suc (bit_length (numeral k))"
  "bit_length (numeral Num.One) = 1"
  by (subst bit_length.simps, simp add: bit_length.simps)+

lemma binary32_sums:
  "0 + Binary32 13421773 (-27) = Binary32 13421773 (-27)"
  "Binary32 13421773 (-27) + Binary32 13421773 (-27) = Binary32 13421773 (-26)"
  "Binary32 13421773 (-26) + Binary32 13421773 (-27) = Binary32 10066330 (-25)"
  "Binary32 10066330 (-25) + Binary32 13421773 (-27) = Binary32 13421773 (-25)"
  "Binary32 13421773 (-25) + Binary32 13421773 (-27) = Binary32 8388608 (-24)"
  "Binary32 8388608 (-24) + Binary32 13421773 (-27) = Binary32 10066330 (-24)"
  "Binary32 10066330 (-24) + Binary32 13421773 (-27) = Binary32 11744052 (-24)"
  "Binary32 11744052 (-24) + Binary32 13421773 (-27) = Binary32 13421774 (-24)"
  "Binary32 13421774 (-24) + Binary32 13421773 (-27) = Binary32 15099496 (-24)"
  "Binary32 15099496 (-24) + Binary32 13421773 (-27) = Binary32 8388609 (-23)"
  by (simp_all add: zero_binary32_def plus_binary32_def round_to_binary32_def Let_def
      bit_length_numeral)

lemma binary32_product:
  "float_of_nat 10 * Binary32 13421773 (-27) = Binary32 8388608 (-23)"
  by (simp add: float_of_nat_def times_binary32_def round_to_binary32_def Let_def
      bit_length_numeral)

text \<open>
  C7, as the code has it. On a non-empty batch \<open>benchmark\<close> calls \<open>f\<close> on every
  element once, in sequence order: a recording callable records exactly the batch, and
  recording changes nothing of what is printed. The printed total starts from 0 and
  grows by the output of each call in turn; for a callable that always returns \<open>c\<close>
  it is \<open>c\<close> added to 0 once for each element, in the output type's own addition,
  which is the size of the batch times \<open>c\<close> where the output type is a semiring (the
  integers, the unsigned integers with their wrap-around). The returned average duration
  is a number and not negative.
\<close>

theorem benchmark_visits_each_once:
  fixes f :: "'v \<Rightarrow> 's \<Rightarrow> 'o::{zero,plus} \<times> 's"
    and h :: "'v \<Rightarrow> 't \<Rightarrow> 'p::semiring_1 \<times> 't"
  assumes "test_instances \<noteq> []"
  shows "snd (snd (benchmark (recording f) test_instances start_time elapsed (s, [])))
           = test_instances
       \<and> printed (fst (benchmark (recording f) test_instances start_time elapsed (s, [])))
           = printed (fst (benchmark f test_instances start_time elapsed s))
       \<and> printed (fst (benchmark f [] start_time elapsed s)) = 0
       \<and> printed (fst (benchmark f (xs @ [x]) start_time elapsed s))
           = printed (fst (benchmark f xs start_time elapsed s))
             + fst (f x (snd (benchmark f xs start_time elapsed s)))
       \<and> ((\<forall>v s'. fst (f v s') = c) \<longrightarrow>
            printed (fst (benchmark f test_instances start_time elapsed s))
              = ((\<lambda>output. output + c) ^^ length test_instances) 0)
       \<and> ((\<forall>v t'. fst (h v t') = d) \<longrightarrow>
            printed (fst (benchmark h test_instances start_time elapsed t))
              = of_nat (length test_instances) * d)
       \<and> (\<exists>a. duration (fst (benchmark f test_instances start_time elapsed s)) = Some a
              \<and> 0 \<le> a)"
proof -
  have calls: "snd (snd (benchmark (recording f) test_instances start_time elapsed (s, [])))
                 = test_instances"
    by (simp add: benchmark_state for_each_recording split: prod.splits)
  have same: "printed (fst (benchmark (recording f) test_instances start_time elapsed (s, [])))
                = printed (fst (benchmark f test_instances start_time elapsed s))"
    by (simp add: benchmark_printed for_each_recording split: prod.splits)
  have empty: "printed (fst (benchmark f [] start_time elapsed s)) = 0"
    by (simp add: benchmark_printed)
  have iter: "(\<forall>v s'. fst (f v s') = c) \<longrightarrow>
            printed (fst (benchmark f test_instances start_time elapsed s))
              = ((\<lambda>output. output + c) ^^ length test_instances) 0"
    using for_each_constant_iterate [of f c test_instances 0 s] by (simp add: benchmark_printed)
  have const: "(\<forall>v t'. fst (h v t') = d) \<longrightarrow>
            printed (fst (benchmark h test_instances start_time elapsed t))
              = of_nat (length test_instances) * d"
    using for_each_constant [of h d test_instances 0 t] by (simp add: benchmark_printed)
  have "0 \<le> real_of_int (int elapsed div 1000) / real (length test_instances)"
    by (simp add: pos_imp_zdiv_nonneg_iff)
  then have dur: "\<exists>a. duration (fst (benchmark f test_instances start_time elapsed s)) = Some a
              \<and> 0 \<le> a"
    using assms by (simp add: benchmark_duration)
  show ?thesis
    using calls same empty benchmark_snoc [of f xs x start_time elapsed s] iter const dur
    by blast
qed

text \<open>
  The identity, the constant 5 and the constant \<open>2 ^ 32 - 1\<close> of \<open>uint32_t\<close> on the
  batch 1, 2, 3, with 6000 ticks on the clock: the totals are 6, 15 and three times
  \<open>2 ^ 32 - 1\<close> in 32 bits, the average is 2 microseconds.
\<close>

theorem benchmark_visits_each_once_witness:
  "[1, 2, 3 :: nat] \<noteq> []
   \<and> snd (snd (benchmark (recording (\<lambda>v s. (v, s))) [1, 2, 3 :: nat] 0 6000 ((), []))) = [1, 2, 3]
   \<and> printed (fst (benchmark (\<lambda>v s. (v, s)) [1, 2, 3 :: nat] 0 6000 ())) = 6
   \<and> printed (fst (benchmark (\<lambda>v s. (5 :: nat, s)) [1, 2, 3 :: nat] 0 6000 ())) = 3 * 5
   \<and> printed (fst (benchmark (\<lambda>v s. (4294967295 :: 32 word, s)) [1, 2, 3 :: nat] 0 6000 ()))
        = 3 * 4294967295
   \<and> duration (fst (benchmark (\<lambda>v s. (v, s)) [1, 2, 3 :: nat] 0 6000 ())) = Some 2"
  using benchmark_visits_each_once [of "[1, 2, 3 :: nat]" "\<lambda>v s. (v, s)" 0 6000 "()" "[]" 0
      5 "\<lambda>v s. (5 :: nat, s)" 5 "()"]
    benchmark_visits_each_once [of "[1, 2, 3 :: nat]" "\<lambda>v s. (v, s)" 0 6000 "()" "[]" 0
      5 "\<lambda>v s. (4294967295 :: 32 word, s)" 4294967295 "()"]
  by (simp add: benchmark_def accumulate_output_def)

text \<open>
  C7 as stated fails for a callable that returns a \<open>float\<close>: the constant 0.1f over a
  batch of ten gives the total 8388609 / 8388608, each sum being rounded, while ten times
  0.1f is 1 as a \<open>float\<close> and 67108865 / 67108864 as a number.
\<close>

theorem benchmark_total_counterexample:
  "printed (fst (benchmark (\<lambda>v s. (Binary32 13421773 (-27), s))
                   [1, 2, 3, 4, 5, 6, 7, 8, 9, 10 :: nat] 0 6000 ()))
     = Binary32 8388609 (-23)
   \<and> float_of_nat 10 * Binary32 13421773 (-27) = Binary32 8388608 (-23)
   \<and> value_of (Binary32 8388609 (-23)) = 8388609 / 8388608
   \<and> 10 * value_of (Binary32 13421773 (-27)) = 67108865 / 67108864
   \<and> printed (fst (benchmark (\<lambda>v s. (Binary32 13421773 (-27), s))
                   [1, 2, 3, 4, 5, 6, 7, 8, 9, 10 :: nat] 0 6000 ()))
        \<noteq> float_of_nat 10 * Binary32 13421773 (-27)"
  by (simp add: benchmark_printed accumulate_output_def binary32_sums binary32_product
      value_of_def)

section \<open>What the results depend on\<close>








end
